theory Spec2Isabelle
  imports Main
begin

section \<open>Thrown values\<close>

text \<open>
  JavaScript can throw any value. The catch blocks of \<open>set\<close> and \<open>get\<close> look at a
  thrown value in one way only:
  \<^verbatim>\<open>error instanceof Error ? error.message : String(error)\<close>.
  A thrown value is therefore either an \<open>Error\<close> instance with its message, or some other
  value, represented by the text \<open>String(error)\<close> gives for it.
\<close>

datatype thrown = Error string | NonError string

fun error_text :: "thrown \<Rightarrow> string" where
  "error_text (Error message) = message"
| "error_text (NonError rendering) = rendering"

section \<open>The host store\<close>

text \<open>
  Modelled from the spec: the host store is the global \<open>localStorage\<close> of the browser, an
  external collaborator of \<open>src/index.ts\<close>; the model follows the host store contract of
  the specification (section 6): \<open>getItem\<close>, \<open>setItem\<close> (which may fail by raising),
  \<open>removeItem\<close> (no-op when the key is absent), \<open>clear\<close>, \<open>length\<close> and \<open>key(index)\<close>.

  The entries are kept as an association list in enumeration order: \<open>key(i)\<close> is the key
  of the \<open>i\<close>-th entry, writing an existing key keeps its position, a new key goes to the
  end, and removing an entry moves the later ones one index down. \<open>refuses\<close> is the host's
  write policy: for the current entries, a key and a value it says whether \<open>setItem\<close>
  raises (a quota, for example) and what it throws; a refused write leaves the entries as
  they were. \<open>calls\<close> records every call made on the host store, oldest first.

  (The jest set-up file of the repository installs a test double of this interface; it
  differs from the contract in reading an entry whose value is the empty string as absent.)
\<close>

datatype host_call =
  GetItem string
  | SetItem string string
  | RemoveItem string
  | Clear
  | Length
  | Key nat

record host =
  items :: "(string \<times> string) list"
  refuses :: "(string \<times> string) list \<Rightarrow> string \<Rightarrow> string \<Rightarrow> thrown option"
  calls :: "host_call list"

definition called :: "host_call \<Rightarrow> host \<Rightarrow> host" where
  "called c s = s\<lparr>calls := calls s @ [c]\<rparr>"

fun put :: "string \<Rightarrow> string \<Rightarrow> (string \<times> string) list \<Rightarrow> (string \<times> string) list" where
  "put k v [] = [(k, v)]"
| "put k v (e # es) = (if fst e = k then (k, v) # es else e # put k v es)"

definition Storage_getItem :: "string \<Rightarrow> host \<Rightarrow> string option \<times> host" where
  "Storage_getItem k s = (map_of (items s) k, called (GetItem k) s)"

definition Storage_setItem :: "string \<Rightarrow> string \<Rightarrow> host \<Rightarrow> (thrown + unit) \<times> host" where
  "Storage_setItem k v s =
     (case refuses s (items s) k v of
        Some e \<Rightarrow> (Inl e, called (SetItem k v) s)
      | None \<Rightarrow> (Inr (), called (SetItem k v) (s\<lparr>items := put k v (items s)\<rparr>)))"

definition Storage_removeItem :: "string \<Rightarrow> host \<Rightarrow> host" where
  "Storage_removeItem k s =
     called (RemoveItem k) (s\<lparr>items := filter (\<lambda>e. fst e \<noteq> k) (items s)\<rparr>)"

definition Storage_clear :: "host \<Rightarrow> host" where
  "Storage_clear s = called Clear (s\<lparr>items := []\<rparr>)"

definition Storage_length :: "host \<Rightarrow> nat \<times> host" where
  "Storage_length s = (length (items s), called Length s)"

definition Storage_key :: "nat \<Rightarrow> host \<Rightarrow> string option \<times> host" where
  "Storage_key i s =
     ((if i < length (items s) then Some (fst (items s ! i)) else None), called (Key i) s)"

section \<open>The storage facade (\<open>src/index.ts\<close>)\<close>

record 'v serializer =
  stringify :: "'v \<Rightarrow> thrown + string"
  parse :: "string \<Rightarrow> thrown + 'v"

text \<open>\<open>StorageOptions\<close>: both fields are optional.\<close>

record 'v StorageOptions =
  prefix_opt :: "string option"
  serializer_opt :: "'v serializer option"

record 'v LocalStorage =
  prefix :: string
  serializer :: "'v serializer"

text \<open>
  The constructor. \<open>options.prefix || ''\<close> gives the empty string for an absent and for
  an empty prefix; \<open>options.serializer || {...}\<close> falls back to the JSON codec, which is
  external (\<open>JSON.stringify\<close>, \<open>JSON.parse\<close>) and is the parameter \<open>json\<close>.
\<close>

definition LocalStorage_new :: "'v serializer \<Rightarrow> 'v StorageOptions \<Rightarrow> 'v LocalStorage" where
  "LocalStorage_new json options =
     \<lparr>prefix = (case prefix_opt options of None \<Rightarrow> [] | Some p \<Rightarrow> if p \<noteq> [] then p else []),
      serializer = (case serializer_opt options of None \<Rightarrow> json | Some c \<Rightarrow> c)\<rparr>"

definition getKey :: "'v LocalStorage \<Rightarrow> string \<Rightarrow> string" where
  "getKey f key = (if prefix f \<noteq> [] then prefix f @ '':'' @ key else key)"

definition LocalStorage_set ::
  "'v LocalStorage \<Rightarrow> string \<Rightarrow> 'v \<Rightarrow> host \<Rightarrow> (thrown + unit) \<times> host" where
  "LocalStorage_set f key val s =
     (case stringify (serializer f) val of
        Inl e \<Rightarrow> (Inl (Error (''Failed to set item: '' @ error_text e)), s)
      | Inr serializedValue \<Rightarrow>
          (case Storage_setItem (getKey f key) serializedValue s of
             (Inl e, s') \<Rightarrow> (Inl (Error (''Failed to set item: '' @ error_text e)), s')
           | (Inr u, s') \<Rightarrow> (Inr (), s')))"

text \<open>
  \<open>get\<close>: the default value is an optional argument, and the result is \<open>T | undefined\<close>;
  both are options, \<open>None\<close> standing for \<open>undefined\<close>.
\<close>

definition LocalStorage_get ::
  "'v LocalStorage \<Rightarrow> string \<Rightarrow> 'v option \<Rightarrow> host \<Rightarrow> (thrown + 'v option) \<times> host" where
  "LocalStorage_get f key defaultValue s =
     (case Storage_getItem (getKey f key) s of
        (None, s') \<Rightarrow> (Inr defaultValue, s')
      | (Some raw, s') \<Rightarrow>
          (case parse (serializer f) raw of
             Inl e \<Rightarrow> (Inl (Error (''Failed to get item: '' @ error_text e)), s')
           | Inr v \<Rightarrow> (Inr (Some v), s')))"

definition LocalStorage_remove :: "'v LocalStorage \<Rightarrow> string \<Rightarrow> host \<Rightarrow> host" where
  "LocalStorage_remove f key s = Storage_removeItem (getKey f key) s"

text \<open>\<open>key.startsWith(p)\<close> on strings.\<close>

definition startsWith :: "string \<Rightarrow> string \<Rightarrow> bool" where
  "startsWith key p = (take (length p) key = p)"

text \<open>
  The loop of \<open>clear\<close>,
  \<^verbatim>\<open>for (let i = localStorage.length - 1; i >= 0; i--)\<close>.
  The counter of \<open>clear_loop\<close> is \<open>i + 1\<close>, so that the empty store (where \<open>i\<close> starts
  at \<open>-1\<close>) is the counter \<open>0\<close>. \<open>key && ...\<close> is false for \<open>null\<close> and for the empty
  string.
\<close>

fun clear_loop :: "string \<Rightarrow> nat \<Rightarrow> host \<Rightarrow> host" where
  "clear_loop p 0 s = s"
| "clear_loop p (Suc i) s =
     (case Storage_key i s of
        (None, s') \<Rightarrow> clear_loop p i s'
      | (Some key, s') \<Rightarrow>
          (if key \<noteq> [] \<and> startsWith key (p @ '':'')
           then clear_loop p i (Storage_removeItem key s')
           else clear_loop p i s'))"

text \<open>\<open>clear(clearAll: boolean = false)\<close>: an omitted argument is \<open>None\<close>.\<close>

definition LocalStorage_clear :: "'v LocalStorage \<Rightarrow> bool option \<Rightarrow> host \<Rightarrow> host" where
  "LocalStorage_clear f clearAll_arg s =
     (let clearAll = (case clearAll_arg of None \<Rightarrow> False | Some b \<Rightarrow> b) in
      if clearAll then Storage_clear s
      else if prefix f \<noteq> [] then
        (case Storage_length s of (n, s') \<Rightarrow> clear_loop (prefix f) n s')
      else Storage_clear s)"

definition LocalStorage_has :: "'v LocalStorage \<Rightarrow> string \<Rightarrow> host \<Rightarrow> bool \<times> host" where
  "LocalStorage_has f key s =
     (case Storage_getItem (getKey f key) s of (v, s') \<Rightarrow> (v \<noteq> None, s'))"

text \<open>The exported default instance and the factory.\<close>

definition storage :: "'v serializer \<Rightarrow> 'v LocalStorage" where
  "storage json = LocalStorage_new json \<lparr>prefix_opt = None, serializer_opt = None\<rparr>"

definition createStorage :: "'v serializer \<Rightarrow> 'v StorageOptions \<Rightarrow> 'v LocalStorage" where
  "createStorage json options = LocalStorage_new json options"

section \<open>Vocabulary of the properties\<close>

text \<open>
  The entries of a store that lie outside the namespace of prefix \<open>p\<close>: those whose key
  does not begin with \<open>p:\<close>.
\<close>

definition outside :: "string \<Rightarrow> (string \<times> string) list \<Rightarrow> (string \<times> string) list" where
  "outside p es = filter (\<lambda>e. \<not> startsWith (fst e) (p @ '':'')) es"

text \<open>
  A host call stays within the namespace of \<open>p\<close> when the entry it reads, writes or
  deletes has a key that begins with \<open>p:\<close>. \<open>clear()\<close> deletes every entry and never
  stays within; \<open>length\<close> and \<open>key(i)\<close> only enumerate key names and read, write and
  delete no entry.
\<close>

fun within_namespace :: "string \<Rightarrow> host_call \<Rightarrow> bool" where
  "within_namespace p (GetItem k) = startsWith k (p @ '':'')"
| "within_namespace p (SetItem k v) = startsWith k (p @ '':'')"
| "within_namespace p (RemoveItem k) = startsWith k (p @ '':'')"
| "within_namespace p Clear = False"
| "within_namespace p Length = True"
| "within_namespace p (Key i) = True"

text \<open>The calls made on the host store between state \<open>s\<close> and a later state \<open>s'\<close>.\<close>

definition calls_since :: "host \<Rightarrow> host \<Rightarrow> host_call list" where
  "calls_since s s' = drop (length (calls s)) (calls s')"

section \<open>Concrete serializers, hosts and facades for the examples\<close>

text \<open>
  A codec on strings that wraps the text in double quotes, as the JSON codec does for a
  string without characters to escape, and that fails to decode text that is not quoted.
\<close>

definition quote_codec :: "string serializer" where
  "quote_codec =
     \<lparr>stringify = (\<lambda>v. Inr (CHR 0x22 # v @ [CHR 0x22])),
      parse = (\<lambda>t. if 2 \<le> length t \<and> hd t = CHR 0x22 \<and> last t = CHR 0x22
                    then Inr (butlast (tl t))
                    else Inl (Error ''Unexpected token''))\<rparr>"

text \<open>A custom codec that reverses the text: its own inverse, and not the identity.\<close>

definition rev_codec :: "string serializer" where
  "rev_codec = \<lparr>stringify = (\<lambda>v. Inr (rev v)), parse = (\<lambda>t. Inr (rev t))\<rparr>"

text \<open>A codec that cannot encode the empty string and cannot decode anything.\<close>

definition picky_codec :: "string serializer" where
  "picky_codec =
     \<lparr>stringify = (\<lambda>v. if v = [] then Inl (Error ''Invalid data structure'') else Inr v),
      parse = (\<lambda>t. Inl (NonError ''bad input''))\<rparr>"

text \<open>A host that accepts every write, and one with a quota on the length of a value.\<close>

definition accepts_all :: "(string \<times> string) list \<Rightarrow> string \<Rightarrow> string \<Rightarrow> thrown option" where
  "accepts_all es k v = None"

definition quota :: "nat \<Rightarrow> (string \<times> string) list \<Rightarrow> string \<Rightarrow> string \<Rightarrow> thrown option" where
  "quota n es k v = (if n < length v then Some (Error ''QuotaExceededError'') else None)"

definition host_of :: "(string \<times> string) list \<Rightarrow> host" where
  "host_of es = \<lparr>items = es, refuses = accepts_all, calls = []\<rparr>"

definition small_host :: "(string \<times> string) list \<Rightarrow> host" where
  "small_host es = \<lparr>items = es, refuses = quota 4, calls = []\<rparr>"

text \<open>
  Facades as the test suite builds them: prefixes \<open>app\<close> and \<open>user\<close> with the default
  codec, one without prefix and with a custom codec, and one with a codec that fails.
\<close>

definition appStorage :: "string LocalStorage" where
  "appStorage = LocalStorage_new quote_codec \<lparr>prefix_opt = Some ''app'', serializer_opt = None\<rparr>"

definition userStorage :: "string LocalStorage" where
  "userStorage = LocalStorage_new quote_codec \<lparr>prefix_opt = Some ''user'', serializer_opt = None\<rparr>"

definition customStorage :: "string LocalStorage" where
  "customStorage =
     createStorage quote_codec \<lparr>prefix_opt = None, serializer_opt = Some rev_codec\<rparr>"

definition pickyStorage :: "string LocalStorage" where
  "pickyStorage =
     createStorage quote_codec \<lparr>prefix_opt = Some ''app'', serializer_opt = Some picky_codec\<rparr>"

text \<open>The store of the scoped-clear test, with three more keys next to the namespace.\<close>

definition shared_entries :: "(string \<times> string) list" where
  "shared_entries =
     [(''app:key1'', ''1''), (''user:key1'', ''2''), (''app'', ''3''), (''app:'', ''4''),
      (''apple:x'', ''5'')]"

lemmas example_defs =
  appStorage_def userStorage_def customStorage_def pickyStorage_def createStorage_def
  LocalStorage_new_def quote_codec_def rev_codec_def picky_codec_def accepts_all_def quota_def
  host_of_def small_host_def shared_entries_def

lemmas operation_defs =
  LocalStorage_set_def LocalStorage_get_def LocalStorage_remove_def LocalStorage_has_def
  LocalStorage_clear_def getKey_def startsWith_def Storage_getItem_def Storage_setItem_def
  Storage_removeItem_def Storage_clear_def Storage_length_def Storage_key_def called_def
  calls_since_def outside_def

section \<open>Facts about the host store\<close>

lemma items_called [simp]: "items (called c s) = items s"
  by (simp add: called_def)

lemma refuses_called [simp]: "refuses (called c s) = refuses s"
  by (simp add: called_def)

lemma calls_called [simp]: "calls (called c s) = calls s @ [c]"
  by (simp add: called_def)

lemma items_removeItem [simp]:
  "items (Storage_removeItem k s) = filter (\<lambda>e. fst e \<noteq> k) (items s)"
  by (simp add: Storage_removeItem_def)

lemma calls_removeItem [simp]: "calls (Storage_removeItem k s) = calls s @ [RemoveItem k]"
  by (simp add: Storage_removeItem_def)

lemma map_of_put: "map_of (put k v es) = (map_of es)(k \<mapsto> v)"
  by (induction es) (auto simp: fun_eq_iff)

lemma map_of_filter_key:
  "map_of (filter (\<lambda>e. Q (fst e)) xs) k = (if Q k then map_of xs k else None)"
  by (induction xs) auto

lemma filter_put:
  "\<not> Q k \<Longrightarrow> filter (\<lambda>e. Q (fst e)) (put k v es) = filter (\<lambda>e. Q (fst e)) es"
  by (induction es) auto

lemma filter_remove:
  "\<not> Q k \<Longrightarrow>
     filter (\<lambda>e. Q (fst e)) (filter (\<lambda>e. fst e \<noteq> k) es) = filter (\<lambda>e. Q (fst e)) es"
  by (induction es) auto

text \<open>Filtering a list moves no element to a higher index.\<close>

lemma set_drop_filter: "set (drop i (filter Q xs)) \<subseteq> set (drop i xs) \<inter> {e. Q e}"
proof (induction xs arbitrary: i)
  case Nil
  show ?case by simp
next
  case (Cons x xs)
  show ?case
  proof (cases i)
    case 0
    then show ?thesis by auto
  next
    case (Suc j)
    have "set (drop (Suc j) (filter Q xs)) \<subseteq> set (drop j (filter Q xs))"
      by (rule set_drop_subset_set_drop) simp
    with Cons.IH [of j] Suc show ?thesis by auto
  qed
qed

lemma calls_since_extend: "calls s' = calls s @ new \<Longrightarrow> calls_since s s' = new"
  by (simp add: calls_since_def)

lemma calls_since_called [simp]: "calls_since s (called c s) = [c]"
  by (simp add: calls_since_def)

section \<open>Facts about keys\<close>

lemma startsWith_Nil: "p \<noteq> [] \<Longrightarrow> \<not> startsWith [] p"
  by (auto simp: startsWith_def)

lemma startsWith_iff: "startsWith key p \<longleftrightarrow> (\<exists>r. key = p @ r)"
proof
  assume "startsWith key p"
  then have "key = p @ drop (length p) key"
    by (metis append_take_drop_id startsWith_def)
  then show "\<exists>r. key = p @ r" ..
next
  assume "\<exists>r. key = p @ r"
  then show "startsWith key p" by (auto simp: startsWith_def)
qed

lemma getKey_in_namespace: "prefix f \<noteq> [] \<Longrightarrow> startsWith (getKey f k) (prefix f @ '':'')"
  by (simp add: getKey_def startsWith_def)

lemma getKey_serializer_update [simp]: "getKey (f\<lparr>serializer := c\<rparr>) k = getKey f k"
  by (simp add: getKey_def)

section \<open>Facts about the facade\<close>

lemma LocalStorage_set_unfold:
  "LocalStorage_set f k v s =
     (case stringify (serializer f) v of
        Inl e \<Rightarrow> (Inl (Error (''Failed to set item: '' @ error_text e)), s)
      | Inr t \<Rightarrow>
          (case refuses s (items s) (getKey f k) t of
             Some e \<Rightarrow> (Inl (Error (''Failed to set item: '' @ error_text e)),
                         called (SetItem (getKey f k) t) s)
           | None \<Rightarrow> (Inr (),
                       called (SetItem (getKey f k) t) (s\<lparr>items := put (getKey f k) t (items s)\<rparr>))))"
  by (simp add: LocalStorage_set_def Storage_setItem_def split: sum.splits option.splits)

lemma set_succeeds:
  "stringify (serializer f) v = Inr t \<Longrightarrow> refuses s (items s) (getKey f k) t = None \<Longrightarrow>
     fst (LocalStorage_set f k v s) = Inr ()"
  by (simp add: LocalStorage_set_unfold)

lemma set_success_stored:
  assumes "fst (LocalStorage_set f k v s) = Inr ()"
  shows "\<exists>t. stringify (serializer f) v = Inr t \<and>
             map_of (items (snd (LocalStorage_set f k v s))) = (map_of (items s))(getKey f k \<mapsto> t)"
  using assms
  by (auto simp: LocalStorage_set_unfold map_of_put split: sum.splits option.splits)

lemma set_items_frame:
  "k' \<noteq> getKey f k \<Longrightarrow>
     map_of (items (snd (LocalStorage_set f k v s))) k' = map_of (items s) k'"
  by (auto simp: LocalStorage_set_unfold map_of_put split: sum.splits option.splits)

lemma set_calls:
  "calls_since s (snd (LocalStorage_set f k v s)) =
     (case stringify (serializer f) v of Inl e \<Rightarrow> [] | Inr t \<Rightarrow> [SetItem (getKey f k) t])"
  by (simp add: LocalStorage_set_unfold calls_since_def split: sum.splits option.splits)

lemma set_outside:
  "\<not> Q (getKey f k) \<Longrightarrow>
     filter (\<lambda>e. Q (fst e)) (items (snd (LocalStorage_set f k v s))) =
     filter (\<lambda>e. Q (fst e)) (items s)"
  by (simp add: LocalStorage_set_unfold filter_put split: sum.splits option.splits)

lemma LocalStorage_get_state: "snd (LocalStorage_get f k d s) = called (GetItem (getKey f k)) s"
  by (simp add: LocalStorage_get_def Storage_getItem_def split: option.splits sum.splits)

lemma LocalStorage_get_absent:
  "map_of (items s) (getKey f k) = None \<Longrightarrow>
     LocalStorage_get f k d s = (Inr d, called (GetItem (getKey f k)) s)"
  by (simp add: LocalStorage_get_def Storage_getItem_def)

lemma LocalStorage_has_unfold:
  "LocalStorage_has f k s =
     (map_of (items s) (getKey f k) \<noteq> None, called (GetItem (getKey f k)) s)"
  by (simp add: LocalStorage_has_def Storage_getItem_def)

subsection \<open>The loop of \<open>clear\<close>\<close>

text \<open>
  The invariant of the downward scan: when the entries at the indices still to come from
  above (\<open>n\<close> and higher) are all outside the namespace, the scan of the indices below
  \<open>n\<close> leaves exactly the entries outside the namespace. A removal at index \<open>i\<close> moves
  only entries of higher indices, which were visited before.
\<close>

lemma clear_loop_items:
  assumes "\<forall>e \<in> set (drop n (items s)). \<not> startsWith (fst e) (p @ '':'')"
  shows "items (clear_loop p n s) = outside p (items s)"
  using assms
proof (induction n arbitrary: s)
  case 0
  then show ?case by (simp add: outside_def filter_id_conv)
next
  case (Suc i)
  let ?xs = "items s"
  show ?case
  proof (cases "i < length ?xs")
    case False
    then have "drop i ?xs = []" by simp
    then have "\<forall>e \<in> set (drop i (items (called (Key i) s))). \<not> startsWith (fst e) (p @ '':'')"
      by simp
    from Suc.IH [OF this] False show ?thesis
      by (simp add: Storage_key_def)
  next
    case True
    let ?key = "fst (?xs ! i)"
    have split: "set (drop i ?xs) = insert (?xs ! i) (set (drop (Suc i) ?xs))"
      using True by (simp add: Cons_nth_drop_Suc [symmetric])
    show ?thesis
    proof (cases "?key \<noteq> [] \<and> startsWith ?key (p @ '':'')")
      case hit: True
      let ?s2 = "Storage_removeItem ?key (called (Key i) s)"
      have "\<forall>e \<in> set (drop i (items ?s2)). \<not> startsWith (fst e) (p @ '':'')"
      proof
        fix e assume "e \<in> set (drop i (items ?s2))"
        then have "e \<in> set (drop i ?xs)" and ne: "fst e \<noteq> ?key"
          using set_drop_filter [of i "\<lambda>e. fst e \<noteq> ?key" ?xs] by auto
        then have "e \<in> set (drop (Suc i) ?xs)"
          using split by auto
        with Suc.prems show "\<not> startsWith (fst e) (p @ '':'')" by blast
      qed
      from Suc.IH [OF this]
      have "items (clear_loop p i ?s2) = outside p (filter (\<lambda>e. fst e \<noteq> ?key) ?xs)"
        by simp
      also have "\<dots> = outside p ?xs"
        using hit by (auto simp: outside_def intro: filter_cong)
      finally show ?thesis
        using True hit by (simp add: Storage_key_def)
    next
      case miss: False
      then have "\<not> startsWith ?key (p @ '':'')"
        using startsWith_Nil [of "p @ '':''"] by auto
      with Suc.prems split
      have "\<forall>e \<in> set (drop i (items (called (Key i) s))). \<not> startsWith (fst e) (p @ '':'')"
        by auto
      from Suc.IH [OF this] True miss show ?thesis
        by (auto simp: Storage_key_def)
    qed
  qed
qed

text \<open>The scan calls \<open>key(i)\<close>, and \<open>removeItem\<close> on keys of the namespace only.\<close>

lemma clear_loop_calls:
  "\<exists>new. calls (clear_loop p n s) = calls s @ new \<and> (\<forall>c \<in> set new. within_namespace p c)"
proof (induction n arbitrary: s)
  case 0
  show ?case by simp
next
  case (Suc i)
  let ?s1 = "called (Key i) s"
  show ?case
  proof (cases "i < length (items s) \<and> fst (items s ! i) \<noteq> []
                 \<and> startsWith (fst (items s ! i)) (p @ '':'')")
    case True
    let ?key = "fst (items s ! i)"
    from Suc.IH [of "Storage_removeItem ?key ?s1"] obtain new where
      new: "calls (clear_loop p i (Storage_removeItem ?key ?s1)) =
              calls (Storage_removeItem ?key ?s1) @ new"
        "\<forall>c \<in> set new. within_namespace p c"
      by blast
    have "calls (clear_loop p (Suc i) s) = calls s @ (Key i # RemoveItem ?key # new)"
      using True new(1) by (simp add: Storage_key_def)
    moreover have "\<forall>c \<in> set (Key i # RemoveItem ?key # new). within_namespace p c"
      using True new(2) by simp
    ultimately show ?thesis by blast
  next
    case False
    from Suc.IH [of ?s1] obtain new where
      new: "calls (clear_loop p i ?s1) = calls ?s1 @ new" "\<forall>c \<in> set new. within_namespace p c"
      by blast
    have "clear_loop p (Suc i) s = clear_loop p i ?s1"
      using False by (auto simp: Storage_key_def)
    then have "calls (clear_loop p (Suc i) s) = calls s @ (Key i # new)"
      using new(1) by simp
    moreover have "\<forall>c \<in> set (Key i # new). within_namespace p c"
      using new(2) by simp
    ultimately show ?thesis by blast
  qed
qed

lemma scoped_unfold:
  "prefix f \<noteq> [] \<Longrightarrow> clearAll \<noteq> Some True \<Longrightarrow>
     LocalStorage_clear f clearAll s =
       clear_loop (prefix f) (length (items s)) (called Length s)"
  by (auto simp: LocalStorage_clear_def Storage_length_def split: option.splits)

lemma scoped_items:
  assumes "prefix f \<noteq> []" and "clearAll \<noteq> Some True"
  shows "items (LocalStorage_clear f clearAll s) = outside (prefix f) (items s)"
  using clear_loop_items [of "length (items s)" "called Length s" "prefix f"]
  by (simp add: scoped_unfold [OF assms])

lemma scoped_calls:
  assumes "prefix f \<noteq> []" and "clearAll \<noteq> Some True"
  shows "\<forall>c \<in> set (calls_since s (LocalStorage_clear f clearAll s)).
           within_namespace (prefix f) c"
proof -
  from clear_loop_calls [of "prefix f" "length (items s)" "called Length s"] obtain new where
    new: "calls (clear_loop (prefix f) (length (items s)) (called Length s)) =
            calls (called Length s) @ new"
      "\<forall>c \<in> set new. within_namespace (prefix f) c"
    by blast
  have "calls (LocalStorage_clear f clearAll s) = calls s @ (Length # new)"
    using new(1) by (simp add: scoped_unfold [OF assms])
  then have "calls_since s (LocalStorage_clear f clearAll s) = Length # new"
    by (rule calls_since_extend)
  with new(2) show ?thesis by simp
qed

section \<open>Claims\<close>

subsection \<open>C1: round trip\<close>

text \<open>
  C1. For every key \<open>k\<close> and value \<open>v\<close>: when the configured serializer satisfies
  \<open>parse(stringify(v)) = v\<close> (the value encodes to a text \<open>t\<close> that decodes to \<open>v\<close>)
  and the host store accepts the write, \<open>set(k, v)\<close> returns, the host store holds \<open>t\<close>
  under the namespaced key, and \<open>get(k)\<close> on the same facade then returns \<open>v\<close>, whatever
  default is passed to \<open>get\<close> and whatever the store held before.
\<close>

theorem set_get_roundtrip:
  assumes "stringify (serializer f) v = Inr t"
    and "parse (serializer f) t = Inr v"
    and "refuses s (items s) (getKey f k) t = None"
  shows "fst (LocalStorage_set f k v s) = Inr ()
       \<and> map_of (items (snd (LocalStorage_set f k v s))) (getKey f k) = Some t
       \<and> fst (LocalStorage_get f k d (snd (LocalStorage_set f k v s))) = Inr (Some v)"
proof -
  have returns: "fst (LocalStorage_set f k v s) = Inr ()"
    using assms(1) assms(3) by (rule set_succeeds)
  from set_success_stored [OF returns] assms(1)
  have stored: "map_of (items (snd (LocalStorage_set f k v s))) (getKey f k) = Some t"
    by auto
  with assms(2)
  have "fst (LocalStorage_get f k d (snd (LocalStorage_set f k v s))) = Inr (Some v)"
    by (simp add: LocalStorage_get_def Storage_getItem_def)
  with returns stored show ?thesis by simp
qed

theorem set_get_roundtrip_witness:
  "stringify (serializer customStorage) ''data'' = Inr ''atad''
   \<and> parse (serializer customStorage) ''atad'' = Inr ''data''
   \<and> refuses (host_of []) (items (host_of [])) (getKey customStorage ''encoded'') ''atad'' = None
   \<and> fst (LocalStorage_set customStorage ''encoded'' ''data'' (host_of [])) = Inr ()
   \<and> items (snd (LocalStorage_set customStorage ''encoded'' ''data'' (host_of []))) =
       [(''encoded'', ''atad'')]
   \<and> fst (LocalStorage_get customStorage ''encoded'' None
            (snd (LocalStorage_set customStorage ''encoded'' ''data'' (host_of [])))) =
       Inr (Some ''data'')
   \<and> fst (LocalStorage_set appStorage ''key1'' ''value'' (host_of shared_entries)) = Inr ()
   \<and> items (snd (LocalStorage_set appStorage ''key1'' ''value'' (host_of shared_entries))) =
       [(''app:key1'', CHR 0x22 # ''value'' @ [CHR 0x22]), (''user:key1'', ''2''),
        (''app'', ''3''), (''app:'', ''4''), (''apple:x'', ''5'')]
   \<and> fst (LocalStorage_get appStorage ''key1'' (Some ''dflt'')
            (snd (LocalStorage_set appStorage ''key1'' ''value'' (host_of shared_entries)))) =
       Inr (Some ''value'')
   \<and> fst (LocalStorage_get customStorage ''k'' None
            (snd (LocalStorage_set customStorage ''k'' ''abc'' (small_host shared_entries)))) =
       Inr (Some ''abc'')"
  using set_get_roundtrip [of customStorage "''data''" "''atad''" "host_of []" "''encoded''" None]
    set_get_roundtrip [of appStorage "''value''" "CHR 0x22 # ''value'' @ [CHR 0x22]"
      "host_of shared_entries" "''key1''" "Some ''dflt''"]
    set_get_roundtrip [of customStorage "''abc''" "''cba''" "small_host shared_entries" "''k''" None]
  by (simp add: example_defs operation_defs)

subsection \<open>C2: scoped clear\<close>

text \<open>
  C2. For a facade with a non-empty prefix \<open>P\<close>, \<open>clear(false)\<close> and \<open>clear()\<close> remove
  from the host store exactly the entries whose key begins with \<open>P:\<close>, for every initial
  content of the store: the entries left are those outside the namespace, in their order
  and with their values; a key that begins with \<open>P:\<close> is absent afterwards and every
  other key reads as before.
\<close>

theorem clear_scoped_exact:
  assumes "prefix f \<noteq> []" and "clearAll = None \<or> clearAll = Some False"
  shows "items (LocalStorage_clear f clearAll s) = outside (prefix f) (items s)
       \<and> (\<forall>k. map_of (items (LocalStorage_clear f clearAll s)) k =
                (if startsWith k (prefix f @ '':'') then None else map_of (items s) k))"
proof -
  from assms(2) have "clearAll \<noteq> Some True" by auto
  with assms(1) have eq: "items (LocalStorage_clear f clearAll s) = outside (prefix f) (items s)"
    by (rule scoped_items)
  show ?thesis
    unfolding eq outside_def
    using map_of_filter_key [of "\<lambda>k. \<not> startsWith k (prefix f @ '':'')" "items s"]
    by simp
qed

theorem clear_scoped_exact_witness:
  "prefix appStorage \<noteq> []
   \<and> items (LocalStorage_clear appStorage None (host_of shared_entries)) =
       [(''user:key1'', ''2''), (''app'', ''3''), (''apple:x'', ''5'')]
   \<and> fst (LocalStorage_has appStorage ''key1''
            (LocalStorage_clear appStorage None (host_of shared_entries))) = False
   \<and> fst (LocalStorage_has userStorage ''key1''
            (LocalStorage_clear appStorage None (host_of shared_entries))) = True"
  using clear_scoped_exact [of appStorage None "host_of shared_entries"]
  by (simp add: example_defs operation_defs)

subsection \<open>C3: full wipe\<close>

text \<open>
  C3. When \<open>clear\<close> is called with \<open>clearAll = true\<close>, or when the facade has no prefix
  (the configured prefix was absent or empty), \<open>clear\<close> removes every entry of the host
  store, those written under other prefixes too, and leaves the store empty.
\<close>

theorem clear_wipes_everything:
  "(clearAll = Some True \<or> prefix f = [] \<longrightarrow> items (LocalStorage_clear f clearAll s) = [])
   \<and> (prefix_opt options = None \<or> prefix_opt options = Some [] \<longrightarrow>
        items (LocalStorage_clear (LocalStorage_new json options) clearAll s) = [])"
  by (auto simp: LocalStorage_clear_def LocalStorage_new_def Storage_clear_def
      split: option.splits)

theorem clear_wipes_everything_witness:
  "items (LocalStorage_clear appStorage (Some True) (host_of shared_entries)) = []
   \<and> prefix customStorage = []
   \<and> items (LocalStorage_clear customStorage None (host_of shared_entries)) = []
   \<and> items (LocalStorage_clear
        (LocalStorage_new quote_codec \<lparr>prefix_opt = Some [], serializer_opt = None\<rparr>)
        (Some False) (host_of shared_entries)) = []"
  using clear_wipes_everything [of "Some True" appStorage "host_of shared_entries"
      "\<lparr>prefix_opt = Some [], serializer_opt = None\<rparr>" quote_codec]
    clear_wipes_everything [of None customStorage "host_of shared_entries"
      "\<lparr>prefix_opt = Some [], serializer_opt = None\<rparr>" quote_codec]
    clear_wipes_everything [of "Some False" customStorage "host_of shared_entries"
      "\<lparr>prefix_opt = Some [], serializer_opt = None\<rparr>" quote_codec]
  by (simp add: example_defs)

subsection \<open>C4: the namespace\<close>

text \<open>
  C4 as stated (every operation of a facade with prefix \<open>P\<close>, \<open>clear\<close> with either
  argument included, touches only keys of the form \<open>P:key\<close>) fails for \<open>clear(true)\<close>:
  on the facade with prefix \<open>app\<close> it calls the host's \<open>clear()\<close> and deletes the entry
  under \<open>user:key1\<close>, a key that does not begin with \<open>app:\<close>.
\<close>

theorem clear_all_leaves_namespace_counterexample:
  "prefix appStorage = ''app''
   \<and> \<not> startsWith ''user:key1'' (prefix appStorage @ '':'')
   \<and> map_of (items (host_of shared_entries)) ''user:key1'' = Some ''2''
   \<and> map_of (items (LocalStorage_clear appStorage (Some True) (host_of shared_entries)))
        ''user:key1'' = None
   \<and> calls_since (host_of shared_entries)
        (LocalStorage_clear appStorage (Some True) (host_of shared_entries)) = [Clear]
   \<and> \<not> within_namespace (prefix appStorage) Clear"
  by (simp add: example_defs operation_defs)

text \<open>
  C4, amended. For a facade with a non-empty prefix \<open>P\<close>, each of \<open>set\<close>, \<open>get\<close>,
  \<open>remove\<close>, \<open>has\<close> and \<open>clear\<close> without \<open>clearAll = true\<close> reads, writes and deletes
  only entries whose key has the form \<open>P:key\<close> (the scoped \<open>clear\<close> also enumerates
  the key names through \<open>length\<close> and \<open>key(i)\<close>, and never calls the host's \<open>clear()\<close>),
  and leaves the entries outside the namespace as they were.
\<close>

theorem namespace_confinement:
  assumes "prefix f \<noteq> []" and "clearAll \<noteq> Some True"
  shows "\<forall>s' \<in> {snd (LocalStorage_set f k v s), snd (LocalStorage_get f k d s),
                 LocalStorage_remove f k s, snd (LocalStorage_has f k s),
                 LocalStorage_clear f clearAll s}.
           (\<forall>c \<in> set (calls_since s s'). within_namespace (prefix f) c)
           \<and> outside (prefix f) (items s') = outside (prefix f) (items s)"
proof -
  let ?P = "prefix f @ '':''"
  have ns: "startsWith (getKey f k) ?P"
    using assms(1) by (rule getKey_in_namespace)
  have set_ok:
    "(\<forall>c \<in> set (calls_since s (snd (LocalStorage_set f k v s))). within_namespace (prefix f) c)
     \<and> outside (prefix f) (items (snd (LocalStorage_set f k v s))) = outside (prefix f) (items s)"
    using ns set_outside [of "\<lambda>k'. \<not> startsWith k' ?P" f k v s]
    by (auto simp: set_calls outside_def split: sum.splits)
  have get_ok:
    "(\<forall>c \<in> set (calls_since s (snd (LocalStorage_get f k d s))). within_namespace (prefix f) c)
     \<and> outside (prefix f) (items (snd (LocalStorage_get f k d s))) = outside (prefix f) (items s)"
    using ns by (simp add: LocalStorage_get_state)
  have remove_ok:
    "(\<forall>c \<in> set (calls_since s (LocalStorage_remove f k s)). within_namespace (prefix f) c)
     \<and> outside (prefix f) (items (LocalStorage_remove f k s)) = outside (prefix f) (items s)"
    using ns filter_remove [of "\<lambda>k'. \<not> startsWith k' ?P" "getKey f k" "items s"]
    by (simp add: LocalStorage_remove_def Storage_removeItem_def calls_since_def outside_def)
  have has_ok:
    "(\<forall>c \<in> set (calls_since s (snd (LocalStorage_has f k s))). within_namespace (prefix f) c)
     \<and> outside (prefix f) (items (snd (LocalStorage_has f k s))) = outside (prefix f) (items s)"
    using ns by (simp add: LocalStorage_has_unfold)
  have clear_ok:
    "(\<forall>c \<in> set (calls_since s (LocalStorage_clear f clearAll s)). within_namespace (prefix f) c)
     \<and> outside (prefix f) (items (LocalStorage_clear f clearAll s)) = outside (prefix f) (items s)"
    using scoped_calls [OF assms] scoped_items [OF assms]
    by (simp add: outside_def)
  from set_ok get_ok remove_ok has_ok clear_ok show ?thesis
    by blast
qed

theorem namespace_confinement_witness:
  "prefix appStorage \<noteq> [] \<and> None \<noteq> Some True
   \<and> calls_since (host_of shared_entries)
        (snd (LocalStorage_set appStorage ''key2'' ''v'' (host_of shared_entries))) =
       [SetItem ''app:key2'' [CHR 0x22, CHR ''v'', CHR 0x22]]
   \<and> calls_since (host_of shared_entries)
        (snd (LocalStorage_get appStorage ''key2'' None (host_of shared_entries))) =
       [GetItem ''app:key2'']
   \<and> calls_since (host_of shared_entries)
        (LocalStorage_remove appStorage ''key1'' (host_of shared_entries)) =
       [RemoveItem ''app:key1'']
   \<and> calls_since (host_of shared_entries)
        (snd (LocalStorage_has appStorage ''key1'' (host_of shared_entries))) =
       [GetItem ''app:key1'']
   \<and> calls_since (host_of shared_entries)
        (LocalStorage_clear appStorage None (host_of shared_entries)) =
       [Length, Key 4, Key 3, RemoveItem ''app:'', Key 2, Key 1, Key 0, RemoveItem ''app:key1'']
   \<and> outside ''app'' (items (LocalStorage_clear appStorage None (host_of shared_entries))) =
       outside ''app'' shared_entries"
  using namespace_confinement [of appStorage None "''key2''" "''v''" "host_of shared_entries" None]
  by (simp add: example_defs operation_defs)

subsection \<open>C5: default for an absent key\<close>

text \<open>
  C5. For a key whose namespaced form is absent from the host store, \<open>get(k, d)\<close> returns
  exactly \<open>d\<close>, and \<open>get(k)\<close> without default returns the absent result. The serializer's
  \<open>parse\<close> plays no part: the result is the same with any function \<open>p\<close> in its place,
  one that throws on every input included.
\<close>

theorem get_absent_default:
  assumes "map_of (items s) (getKey f k) = None"
  shows "fst (LocalStorage_get f k d s) = Inr d
       \<and> fst (LocalStorage_get f k None s) = Inr None
       \<and> fst (LocalStorage_get (f\<lparr>serializer := (serializer f)\<lparr>parse := p\<rparr>\<rparr>) k d s) = Inr d"
proof -
  have "map_of (items s) (getKey (f\<lparr>serializer := (serializer f)\<lparr>parse := p\<rparr>\<rparr>) k) = None"
    using assms by simp
  then show ?thesis
    using assms by (simp add: LocalStorage_get_absent)
qed

theorem get_absent_default_witness:
  "map_of (items (host_of shared_entries)) (getKey appStorage ''nonexistent'') = None
   \<and> fst (LocalStorage_get appStorage ''nonexistent'' (Some ''dflt'') (host_of shared_entries)) =
       Inr (Some ''dflt'')
   \<and> fst (LocalStorage_get appStorage ''nonexistent'' None (host_of shared_entries)) = Inr None
   \<and> fst (LocalStorage_get
            (appStorage\<lparr>serializer := (serializer appStorage)\<lparr>parse := parse picky_codec\<rparr>\<rparr>)
            ''nonexistent'' (Some ''dflt'') (host_of shared_entries)) =
       Inr (Some ''dflt'')"
  using get_absent_default [of "host_of shared_entries" appStorage "''nonexistent''"
      "Some ''dflt''" "parse picky_codec"]
  by (simp add: example_defs operation_defs)

subsection \<open>C6: existence\<close>

text \<open>
  C6. On a single facade, for every key \<open>k\<close> and value \<open>v\<close>: right after a \<open>set(k, v)\<close>
  that succeeded, \<open>has(k)\<close> is true; right after \<open>remove(k)\<close>, \<open>has(k)\<close> is false.
\<close>

theorem has_after_set_and_remove:
  "(fst (LocalStorage_set f k v s) = Inr () \<longrightarrow>
      fst (LocalStorage_has f k (snd (LocalStorage_set f k v s))) = True)
   \<and> fst (LocalStorage_has f k (LocalStorage_remove f k s)) = False"
proof -
  have "map_of (filter (\<lambda>e. fst e \<noteq> getKey f k) (items s)) (getKey f k) = None"
    using map_of_filter_key [of "\<lambda>k'. k' \<noteq> getKey f k" "items s" "getKey f k"] by simp
  then have "fst (LocalStorage_has f k (LocalStorage_remove f k s)) = False"
    by (simp add: LocalStorage_has_unfold LocalStorage_remove_def)
  moreover have "fst (LocalStorage_has f k (snd (LocalStorage_set f k v s))) = True"
    if "fst (LocalStorage_set f k v s) = Inr ()"
    using set_success_stored [OF that] by (auto simp: LocalStorage_has_unfold)
  ultimately show ?thesis by blast
qed

theorem has_after_set_and_remove_witness:
  "fst (LocalStorage_set appStorage ''existingKey'' ''value'' (host_of [])) = Inr ()
   \<and> fst (LocalStorage_has appStorage ''existingKey''
            (snd (LocalStorage_set appStorage ''existingKey'' ''value'' (host_of [])))) = True
   \<and> fst (LocalStorage_has appStorage ''key1'' (host_of shared_entries)) = True
   \<and> fst (LocalStorage_has appStorage ''key1''
            (LocalStorage_remove appStorage ''key1'' (host_of shared_entries))) = False"
  using has_after_set_and_remove [of appStorage "''existingKey''" "''value''" "host_of []"]
    has_after_set_and_remove [of appStorage "''key1''" "''value''" "host_of shared_entries"]
  by (simp add: example_defs operation_defs)

subsection \<open>C7: prefix isolation\<close>

text \<open>
  C7. For two facades with distinct non-empty prefixes \<open>p1\<close> and \<open>p2\<close>, every key \<open>k\<close>
  and value \<open>v\<close>: \<open>set(k, v)\<close> on the first leaves \<open>has(k)\<close> on the second as it was
  (whether the \<open>set\<close> returns or raises); and when the value encodes and the host store
  accepts the write, the \<open>set\<close> returns and the host store then has a key equal to
  \<open>p1:k\<close>, whatever the store held before.
\<close>

theorem prefix_isolation:
  assumes "prefix f1 \<noteq> []" and "prefix f2 \<noteq> []" and "prefix f1 \<noteq> prefix f2"
  shows "fst (LocalStorage_has f2 k (snd (LocalStorage_set f1 k v s))) =
           fst (LocalStorage_has f2 k s)
       \<and> (stringify (serializer f1) v = Inr t
            \<and> refuses s (items s) (prefix f1 @ '':'' @ k) t = None \<longrightarrow>
            fst (LocalStorage_set f1 k v s) = Inr ()
            \<and> prefix f1 @ '':'' @ k \<in> fst ` set (items (snd (LocalStorage_set f1 k v s)))
            \<and> map_of (items (snd (LocalStorage_set f1 k v s))) (prefix f1 @ '':'' @ k) = Some t)"
proof -
  have key1: "getKey f1 k = prefix f1 @ '':'' @ k"
    using assms(1) by (simp add: getKey_def)
  have "getKey f2 k \<noteq> getKey f1 k"
    using assms by (simp add: getKey_def)
  then have frame: "fst (LocalStorage_has f2 k (snd (LocalStorage_set f1 k v s))) =
               fst (LocalStorage_has f2 k s)"
    by (simp add: LocalStorage_has_unfold set_items_frame)
  have "fst (LocalStorage_set f1 k v s) = Inr ()
        \<and> prefix f1 @ '':'' @ k \<in> fst ` set (items (snd (LocalStorage_set f1 k v s)))
        \<and> map_of (items (snd (LocalStorage_set f1 k v s))) (prefix f1 @ '':'' @ k) = Some t"
    if enc: "stringify (serializer f1) v = Inr t"
      and acc: "refuses s (items s) (prefix f1 @ '':'' @ k) t = None"
  proof -
    from acc have "refuses s (items s) (getKey f1 k) t = None"
      by (simp add: key1)
    with enc have returns: "fst (LocalStorage_set f1 k v s) = Inr ()"
      by (rule set_succeeds)
    from set_success_stored [OF returns] enc
    have stored: "map_of (items (snd (LocalStorage_set f1 k v s))) (getKey f1 k) = Some t"
      by auto
    then have "getKey f1 k \<in> fst ` set (items (snd (LocalStorage_set f1 k v s)))"
      by (metis domI dom_map_of_conv_image_fst)
    with returns stored show ?thesis by (simp add: key1)
  qed
  with frame show ?thesis by blast
qed

theorem prefix_isolation_witness:
  "prefix appStorage \<noteq> [] \<and> prefix userStorage \<noteq> [] \<and> prefix appStorage \<noteq> prefix userStorage
   \<and> fst (LocalStorage_has userStorage ''key'' (host_of [])) = False
   \<and> fst (LocalStorage_set appStorage ''key'' ''value'' (host_of [])) = Inr ()
   \<and> fst (LocalStorage_has userStorage ''key''
            (snd (LocalStorage_set appStorage ''key'' ''value'' (host_of [])))) = False
   \<and> map fst (items (snd (LocalStorage_set appStorage ''key'' ''value'' (host_of [])))) =
       [''app:key'']
   \<and> stringify (serializer appStorage) ''v'' = Inr [CHR 0x22, CHR ''v'', CHR 0x22]
   \<and> refuses (host_of shared_entries) (items (host_of shared_entries)) ''app:key2''
        [CHR 0x22, CHR ''v'', CHR 0x22] = None
   \<and> fst (LocalStorage_set appStorage ''key2'' ''v'' (host_of shared_entries)) = Inr ()
   \<and> fst (LocalStorage_has userStorage ''key2'' (host_of shared_entries)) = False
   \<and> fst (LocalStorage_has userStorage ''key2''
            (snd (LocalStorage_set appStorage ''key2'' ''v'' (host_of shared_entries)))) = False
   \<and> map fst (items (snd (LocalStorage_set appStorage ''key2'' ''v'' (host_of shared_entries)))) =
       [''app:key1'', ''user:key1'', ''app'', ''app:'', ''apple:x'', ''app:key2'']
   \<and> fst (LocalStorage_has userStorage ''key1''
            (snd (LocalStorage_set appStorage ''key1'' ''v'' (host_of shared_entries)))) = True
   \<and> fst (LocalStorage_set pickyStorage ''key1'' ''too long'' (small_host shared_entries)) =
       Inl (Error ''Failed to set item: QuotaExceededError'')
   \<and> fst (LocalStorage_has userStorage ''key1''
            (snd (LocalStorage_set pickyStorage ''key1'' ''too long''
                   (small_host shared_entries)))) = True"
  using prefix_isolation [of appStorage userStorage "''key''" "''value''" "host_of []"
      "CHR 0x22 # ''value'' @ [CHR 0x22]"]
    prefix_isolation [of appStorage userStorage "''key2''" "''v''" "host_of shared_entries"
      "[CHR 0x22, CHR ''v'', CHR 0x22]"]
    prefix_isolation [of appStorage userStorage "''key1''" "''v''" "host_of shared_entries"
      "[CHR 0x22, CHR ''v'', CHR 0x22]"]
    prefix_isolation [of pickyStorage userStorage "''key1''" "''too long''"
      "small_host shared_entries" "''too long''"]
  by (simp add: example_defs operation_defs)

subsection \<open>C8: errors of \<open>set\<close>\<close>

text \<open>
  C8. \<open>set(key, value)\<close> raises exactly when the serializer's \<open>stringify\<close> throws or the
  host store's \<open>setItem\<close> throws, and what it raises is an \<open>Error\<close> whose message is
  \<open>Failed to set item: \<close> followed by the message of the underlying failure (the text
  \<open>String\<close> gives when the thrown value is not an \<open>Error\<close>). This \<open>Error\<close> is what the
  specification calls a \<open>StorageWriteError\<close>.
\<close>

theorem set_raises_exactly:
  "((\<exists>err. fst (LocalStorage_set f k v s) = Inl err) \<longleftrightarrow>
      (\<exists>cause. stringify (serializer f) v = Inl cause) \<or>
      (\<exists>t cause. stringify (serializer f) v = Inr t \<and>
                  fst (Storage_setItem (getKey f k) t s) = Inl cause))
   \<and> (\<forall>err. fst (LocalStorage_set f k v s) = Inl err \<longrightarrow>
        (\<exists>cause. err = Error (''Failed to set item: '' @ error_text cause) \<and>
           (stringify (serializer f) v = Inl cause \<or>
            (\<exists>t. stringify (serializer f) v = Inr t \<and>
                 fst (Storage_setItem (getKey f k) t s) = Inl cause))))"
  by (auto simp: LocalStorage_set_def split: sum.splits prod.splits)

theorem set_raises_exactly_witness:
  "stringify (serializer pickyStorage) [] = Inl (Error ''Invalid data structure'')
   \<and> fst (LocalStorage_set pickyStorage ''data'' [] (small_host [])) =
       Inl (Error ''Failed to set item: Invalid data structure'')
   \<and> stringify (serializer pickyStorage) ''too long'' = Inr ''too long''
   \<and> fst (Storage_setItem (getKey pickyStorage ''data'') ''too long'' (small_host [])) =
       Inl (Error ''QuotaExceededError'')
   \<and> fst (LocalStorage_set pickyStorage ''data'' ''too long'' (small_host [])) =
       Inl (Error ''Failed to set item: QuotaExceededError'')
   \<and> fst (LocalStorage_set pickyStorage ''data'' ''ok'' (small_host [])) = Inr ()"
  using set_raises_exactly [of pickyStorage "''data''" "[]" "small_host []"]
    set_raises_exactly [of pickyStorage "''data''" "''too long''" "small_host []"]
    set_raises_exactly [of pickyStorage "''data''" "''ok''" "small_host []"]
  by (simp add: example_defs operation_defs)

subsection \<open>C9: a failing \<open>stringify\<close> leaves the store alone\<close>

text \<open>
  C9. When \<open>set(key, value)\<close> raises because the serializer's \<open>stringify\<close> throws, the
  host store is left as it was: no entry is added, removed or modified, and no call is
  made on the host store at all.
\<close>

theorem set_stringify_failure_atomic:
  "stringify (serializer f) v = Inl e \<Longrightarrow>
     LocalStorage_set f key v s = (Inl (Error (''Failed to set item: '' @ error_text e)), s)"
  by (simp add: LocalStorage_set_def)

theorem set_stringify_failure_atomic_witness:
  "stringify (serializer pickyStorage) [] = Inl (Error ''Invalid data structure'')
   \<and> LocalStorage_set pickyStorage ''k'' [] (host_of [(''app:k'', ''old'')]) =
       (Inl (Error ''Failed to set item: Invalid data structure''),
        host_of [(''app:k'', ''old'')])"
  using set_stringify_failure_atomic
    [of pickyStorage "[]" "Error ''Invalid data structure''" "''k''"
        "host_of [(''app:k'', ''old'')]"]
  by (simp add: example_defs)

subsection \<open>C10: \<open>get\<close> and \<open>has\<close> only read\<close>

text \<open>
  C10. For every key, default value and state of the host store, \<open>get\<close> and \<open>has\<close> leave
  the host store as it was: the one call they make is \<open>getItem\<close> on the namespaced key,
  and the entries are the same afterwards, whether the key is present or absent and, for
  \<open>get\<close>, also when decoding fails and an error is raised.
\<close>

theorem get_has_readonly:
  "snd (LocalStorage_get f k d s) = called (GetItem (getKey f k)) s
   \<and> items (snd (LocalStorage_get f k d s)) = items s
   \<and> snd (LocalStorage_has f k s) = called (GetItem (getKey f k)) s
   \<and> items (snd (LocalStorage_has f k s)) = items s"
  by (simp add: LocalStorage_get_state LocalStorage_has_unfold)

theorem get_has_readonly_witness:
  "fst (LocalStorage_get pickyStorage ''key1'' None (host_of shared_entries)) =
     Inl (Error ''Failed to get item: bad input'')
   \<and> items (snd (LocalStorage_get pickyStorage ''key1'' None (host_of shared_entries))) =
       shared_entries
   \<and> items (snd (LocalStorage_has pickyStorage ''key1'' (host_of shared_entries))) =
       shared_entries"
  using get_has_readonly [of pickyStorage "''key1''" None "host_of shared_entries"]
  by (simp add: example_defs operation_defs)

end
